theory Spec2Isabelle
  imports Main "HOL-Library.AList" "HOL-Library.Char_ord" "HOL-Library.List_Lexorder"
begin

section \<open>The relay server of \<^verbatim>\<open>src/server/server.py\<close>\<close>

text \<open>
  The server keeps two dictionaries behind one lock: \<^verbatim>\<open>clients\<close> (username to socket)
  and \<^verbatim>\<open>pairs\<close> (username to partner username). A Python dictionary is modelled as an
  association list in insertion order: \<^verbatim>\<open>d.get(k)\<close> is \<open>map_of d k\<close>, \<^verbatim>\<open>d[k] = v\<close>
  is \<open>AList.update k v d\<close> and \<^verbatim>\<open>d.pop(k, None)\<close> is \<open>AList.delete k d\<close>.
  A socket is an opaque handle (a number); a socket object is always truthy in Python,
  so \<^verbatim>\<open>if sock:\<close> is the test for \<open>Some\<close>. What the server writes to sockets and which
  sockets it closes are recorded, in order, in two logs carried by the state.
  Strings are lists of 8-bit characters, read as code points below 256.
\<close>

subsection \<open>Python string operations used by the server\<close>

definition py_isspace :: "char \<Rightarrow> bool" where
  \<comment> \<open>\<^verbatim>\<open>str.isspace\<close> on the code points below 256\<close>
  "py_isspace c = ((of_char c :: nat) \<in> {9, 10, 11, 12, 13, 28, 29, 30, 31, 32, 133, 160})"

definition py_strip :: "string \<Rightarrow> string" where
  \<comment> \<open>\<^verbatim>\<open>s.strip()\<close>\<close>
  "py_strip s = rev (dropWhile py_isspace (rev (dropWhile py_isspace s)))"

definition rstrip_nl :: "string \<Rightarrow> string" where
  \<comment> \<open>\<^verbatim>\<open>s.rstrip("\n")\<close>\<close>
  "rstrip_nl s = rev (dropWhile (\<lambda>c. c = CHR 0x0A) (rev s))"

definition py_lower_char :: "char \<Rightarrow> char" where
  "py_lower_char c =
     (let n = (of_char c :: nat)
      in if (65 \<le> n \<and> n \<le> 90) \<or> (192 \<le> n \<and> n \<le> 222 \<and> n \<noteq> 215)
         then char_of (n + 32) else c)"

definition py_lower :: "string \<Rightarrow> string" where
  \<comment> \<open>\<^verbatim>\<open>s.lower()\<close>\<close>
  "py_lower s = map py_lower_char s"

definition py_split1 :: "string \<Rightarrow> string list" where
  \<comment> \<open>\<^verbatim>\<open>s.split(maxsplit=1)\<close>: the first word, then the rest without its leading
      whitespace (trailing whitespace kept), when something is left\<close>
  "py_split1 s =
     (let s1 = dropWhile py_isspace s
      in if s1 = [] then []
         else let w = takeWhile (\<lambda>c. \<not> py_isspace c) s1;
                  r = dropWhile py_isspace (dropWhile (\<lambda>c. \<not> py_isspace c) s1)
              in if r = [] then [w] else [w, r])"

fun py_join :: "string \<Rightarrow> string list \<Rightarrow> string" where
  \<comment> \<open>\<^verbatim>\<open>sep.join(xs)\<close>\<close>
  "py_join sep [] = []"
| "py_join sep [x] = x"
| "py_join sep (x # y # ys) = x @ sep @ py_join sep (y # ys)"

subsection \<open>Shared state and the socket helpers\<close>

type_synonym conn = nat

record server =
  clients :: "(string \<times> conn) list"
  pairs :: "(string \<times> string) list"
  sent :: "(conn \<times> string) list"
  closed :: "conn list"

definition send_line :: "conn \<Rightarrow> string \<Rightarrow> server \<Rightarrow> server" where
  \<comment> \<open>the text is logged without the newline that \<^verbatim>\<open>send_line\<close> appends; a failed write
      is swallowed by the source and changes nothing else\<close>
  "send_line sock text s = s\<lparr>sent := sent s @ [(sock, text)]\<rparr>"

definition safe_close :: "conn \<Rightarrow> server \<Rightarrow> server" where
  "safe_close sock s = s\<lparr>closed := closed s @ [sock]\<rparr>"

subsection \<open>The guarded helpers\<close>

definition get_partner :: "server \<Rightarrow> string \<Rightarrow> string option" where
  "get_partner s username = map_of (pairs s) username"

definition get_socket :: "server \<Rightarrow> string \<Rightarrow> conn option" where
  "get_socket s username = map_of (clients s) username"

definition set_pair :: "string \<Rightarrow> string \<Rightarrow> server \<Rightarrow> server" where
  "set_pair a b s = s\<lparr>pairs := AList.update b a (AList.update a b (pairs s))\<rparr>"

definition list_users :: "server \<Rightarrow> string \<Rightarrow> string list" where
  "list_users s except_name = sort (filter (\<lambda>u. u \<noteq> except_name) (map fst (clients s)))"

definition cleanup_user :: "string \<Rightarrow> server \<Rightarrow> server" where
  \<comment> \<open>the guarded block, then the notice to the partner and the close, as the source
      orders them\<close>
  "cleanup_user username s =
     (let sock = map_of (clients s) username;
          partner = map_of (pairs s) username;
          s1 = s\<lparr>clients := AList.delete username (clients s),
                 pairs := AList.delete username (pairs s)\<rparr>;
          (s2, partner_sock) =
             (case partner of
                None \<Rightarrow> (s1, None)
              | Some p \<Rightarrow>
                  if map_of (pairs s1) p = Some username
                  then (s1\<lparr>pairs := AList.delete p (pairs s1)\<rparr>, map_of (clients s1) p)
                  else (s1, None));
          s3 = (case partner_sock of
                  None \<Rightarrow> s2
                | Some ps \<Rightarrow>
                    send_line ps (''[SERVER] '' @ username @ '' disconnected. Chat closed.'') s2)
      in case sock of None \<Rightarrow> s3 | Some k \<Rightarrow> safe_close k s3)"

subsection \<open>The connection worker\<close>

definition apos :: string where
  \<comment> \<open>the single quote that the source puts around names in two of its notices\<close>
  "apos = [CHR 0x27]"

definition users_cmd :: "string \<Rightarrow> conn \<Rightarrow> server \<Rightarrow> server" where
  "users_cmd username conn s =
     (let users = list_users s username
      in if users \<noteq> [] then send_line conn (''[SERVER] Online: '' @ py_join '', '' users) s
         else send_line conn ''[SERVER] No other users online.'' s)"

definition unpair_locked :: "string \<Rightarrow> string \<Rightarrow> server \<Rightarrow> server" where
  \<comment> \<open>the guarded block of \<^verbatim>\<open>/chat\<close> and \<^verbatim>\<open>/leave\<close>: drop the partner's entry when it
      points back, then the sender's own\<close>
  "unpair_locked username partner s =
     (let s1 = (if map_of (pairs s) partner = Some username
                then s\<lparr>pairs := AList.delete partner (pairs s)\<rparr> else s)
      in s1\<lparr>pairs := AList.delete username (pairs s1)\<rparr>)"

definition close_previous :: "string \<Rightarrow> conn \<Rightarrow> server \<Rightarrow> server" where
  \<comment> \<open>\<^verbatim>\<open>/chat\<close>, "Close previous chat if exists"; \<^verbatim>\<open>if old_partner:\<close> is false for
      \<^verbatim>\<open>None\<close> and for the empty string\<close>
  "close_previous username conn s =
     (case get_partner s username of
        None \<Rightarrow> s
      | Some old_partner \<Rightarrow>
          if old_partner = [] then s
          else let s1 = unpair_locked username old_partner s;
                   s2 = (case get_socket s1 old_partner of
                           None \<Rightarrow> s1
                         | Some old_partner_sock \<Rightarrow>
                             send_line old_partner_sock
                               (''[SERVER] '' @ username @ '' left the chat.'') s1)
               in send_line conn (''[SERVER] Left previous chat with '' @ old_partner @ ''.'') s2)"

definition chat_prepare :: "string \<Rightarrow> conn \<Rightarrow> string \<Rightarrow> server \<Rightarrow> bool \<times> server" where
  \<comment> \<open>\<^verbatim>\<open>/chat\<close> from "Close previous chat" to the refusal of a busy target; the flag
      says whether the worker goes on to \<^verbatim>\<open>set_pair\<close>\<close>
  "chat_prepare username conn target s =
     (let s1 = close_previous username conn s
      in case get_partner s1 target of
           None \<Rightarrow> (True, s1)
         | Some target_partner \<Rightarrow>
             if target_partner \<noteq> [] \<and> target_partner \<noteq> username
             then (False, send_line conn
                     (''[SERVER] '' @ apos @ target @ apos @ '' is already chatting with ''
                        @ apos @ target_partner @ apos @ ''.'') s1)
             else (True, s1))"

definition chat_commit :: "string \<Rightarrow> conn \<Rightarrow> string \<Rightarrow> conn \<Rightarrow> server \<Rightarrow> server" where
  \<comment> \<open>\<^verbatim>\<open>/chat\<close>, the last three lines: \<^verbatim>\<open>set_pair\<close> and the two notices\<close>
  "chat_commit username conn target target_sock s =
     (let s1 = set_pair username target s;
          s2 = send_line conn (''[SERVER] Chat started with '' @ target @ ''.'') s1
      in send_line target_sock
           (''[SERVER] '' @ username @ '' started a chat with you. You are now connected.'') s2)"

definition chat_cmd :: "string \<Rightarrow> conn \<Rightarrow> string list \<Rightarrow> server \<Rightarrow> server" where
  "chat_cmd username conn parts s =
     (if length parts < 2 \<or> py_strip (parts ! 1) = []
      then send_line conn ''[SERVER] Usage: /chat <username>'' s
      else let target = py_strip (parts ! 1)
           in if target = username
              then send_line conn ''[SERVER] You can't chat with yourself.'' s
              else case get_socket s target of
                     None \<Rightarrow>
                       send_line conn (''[SERVER] User '' @ apos @ target @ apos @ '' not found.'') s
                   | Some target_sock \<Rightarrow>
                       (case chat_prepare username conn target s of
                          (False, s1) \<Rightarrow> s1
                        | (True, s1) \<Rightarrow> chat_commit username conn target target_sock s1))"

definition leave_cmd :: "string \<Rightarrow> conn \<Rightarrow> server \<Rightarrow> server" where
  "leave_cmd username conn s =
     (case get_partner s username of
        None \<Rightarrow> send_line conn ''[SERVER] You're not in a chat.'' s
      | Some partner \<Rightarrow>
          if partner = [] then send_line conn ''[SERVER] You're not in a chat.'' s
          else let s1 = unpair_locked username partner s;
                   s2 = (case get_socket s1 partner of
                           None \<Rightarrow> s1
                         | Some partner_sock \<Rightarrow>
                             send_line partner_sock
                               (''[SERVER] '' @ username @ '' left the chat.'') s1)
               in send_line conn (''[SERVER] You left the chat with '' @ partner @ ''.'') s2)"

definition route_message :: "string \<Rightarrow> conn \<Rightarrow> string \<Rightarrow> server \<Rightarrow> server" where
  \<comment> \<open>"normal message -> forward to partner (if exists)"\<close>
  "route_message username conn msg s =
     (case get_partner s username of
        None \<Rightarrow>
          send_line conn ''[SERVER] You're not in a chat. Use /users then /chat <username>.'' s
      | Some partner \<Rightarrow>
          if partner = []
          then send_line conn
                 ''[SERVER] You're not in a chat. Use /users then /chat <username>.'' s
          else case get_socket s partner of
                 None \<Rightarrow>
                   send_line conn ''[SERVER] Partner disconnected. Chat closed.''
                     (s\<lparr>pairs := AList.delete username (pairs s)\<rparr>)
               | Some partner_sock \<Rightarrow> send_line partner_sock (username @ '': '' @ msg) s)"

datatype flow = Continue | Break

definition handle_line :: "string \<Rightarrow> conn \<Rightarrow> string \<Rightarrow> server \<Rightarrow> flow \<times> server" where
  \<comment> \<open>one pass of the \<^verbatim>\<open>while True\<close> loop on what \<^verbatim>\<open>readline\<close> returned (the empty string
      at the end of the stream). \<^verbatim>\<open>parts[0]\<close> on an empty list would raise and leave the
      loop through \<^verbatim>\<open>except\<close>\<close>
  "handle_line username conn line s =
     (if line = [] then (Break, s)
      else let msg = rstrip_nl line
           in if msg = [] then (Continue, s)
              else if take 1 msg = ''/''
              then (case py_split1 msg of
                      [] \<Rightarrow> (Break, s)
                    | p0 # ps \<Rightarrow>
                        let parts = p0 # ps; cmd = py_lower p0
                        in if cmd = ''/users'' then (Continue, users_cmd username conn s)
                           else if cmd = ''/chat'' then (Continue, chat_cmd username conn parts s)
                           else if cmd = ''/leave'' then (Continue, leave_cmd username conn s)
                           else if cmd = ''/quit'' then (Break, send_line conn ''[SERVER] Bye.'' s)
                           else (Continue, send_line conn ''[SERVER] Unknown command.'' s))
              else (Continue, route_message username conn msg s))"

datatype read_result = Line string | ReadError

fun main_loop :: "string \<Rightarrow> conn \<Rightarrow> read_result list \<Rightarrow> server \<Rightarrow> server" where
  \<comment> \<open>the loop over what the connection delivers: the list is the sequence of results of
      \<^verbatim>\<open>readline\<close>, after which the stream is at its end; \<open>ReadError\<close> is a read that
      raises\<close>
  "main_loop username conn [] s = s"
| "main_loop username conn (ReadError # rest) s = s"
| "main_loop username conn (Line l # rest) s =
     (case handle_line username conn l s of
        (Continue, s') \<Rightarrow> main_loop username conn rest s'
      | (Break, s') \<Rightarrow> s')"

definition greet :: "string \<Rightarrow> conn \<Rightarrow> server \<Rightarrow> server" where
  "greet username conn s =
     (let s1 = send_line conn (''[SERVER] Hello '' @ username @ ''!'') s;
          s2 = send_line conn ''[SERVER] Commands:'' s1;
          s3 = send_line conn ''  /users                -> list online users'' s2;
          s4 = send_line conn ''  /chat <username>      -> start chat with user'' s3;
          s5 = send_line conn ''  /leave                -> leave current chat'' s4;
          s6 = send_line conn ''  /quit                 -> disconnect'' s5
      in send_line conn ''[SERVER] Tip: after /chat, just type messages normally.'' s6)"

definition serve :: "string \<Rightarrow> conn \<Rightarrow> read_result list \<Rightarrow> server \<Rightarrow> server" where
  \<comment> \<open>a registered worker from its main loop on: the loop, then the \<^verbatim>\<open>finally\<close> block
      with a non-empty \<^verbatim>\<open>username\<close>\<close>
  "serve username conn rest s = cleanup_user username (main_loop username conn rest s)"

definition enter :: "string \<Rightarrow> conn \<Rightarrow> read_result list \<Rightarrow> server \<Rightarrow> server" where
  \<comment> \<open>\<^verbatim>\<open>handle_client\<close> once the name has been read and stripped, \<^verbatim>\<open>finally\<close> block
      included: \<^verbatim>\<open>if username: cleanup_user(username) else: safe_close(conn)\<close>\<close>
  "enter username conn rest s =
     (if username = []
      then safe_close conn (send_line conn ''[SERVER] Empty username. Bye.'' s)
      else if map_of (clients s) username \<noteq> None
      then cleanup_user username (send_line conn ''[SERVER] Username already taken. Bye.'' s)
      else let s1 = s\<lparr>clients := AList.update username conn (clients s)\<rparr>;
               s2 = greet username conn s1
           in serve username conn rest s2)"

definition handle_client :: "conn \<Rightarrow> read_result list \<Rightarrow> server \<Rightarrow> server" where
  "handle_client conn input s =
     (let s0 = send_line conn ''[SERVER] Welcome! Enter your username:'' s
      in case input of
           [] \<Rightarrow> enter (py_strip []) conn [] s0
         | ReadError # rest \<Rightarrow> safe_close conn s0
         | Line l # rest \<Rightarrow> enter (py_strip l) conn rest s0)"

subsection \<open>Other workers between two guarded blocks\<close>

text \<open>
  Every helper takes the lock for its own body only, so \<^verbatim>\<open>/chat\<close> holds it several times
  and releases it in between: in particular between \<^verbatim>\<open>get_partner(target)\<close> and
  \<^verbatim>\<open>set_pair(username, target)\<close>. \<open>chat_cmd_interrupted other\<close> is \<open>chat_cmd\<close> with the
  shared state changed by \<open>other\<close> (what the other workers do meanwhile) at that point.
\<close>

definition chat_cmd_interrupted ::
  "(server \<Rightarrow> server) \<Rightarrow> string \<Rightarrow> conn \<Rightarrow> string list \<Rightarrow> server \<Rightarrow> server" where
  "chat_cmd_interrupted other username conn parts s =
     (if length parts < 2 \<or> py_strip (parts ! 1) = []
      then send_line conn ''[SERVER] Usage: /chat <username>'' s
      else let target = py_strip (parts ! 1)
           in if target = username
              then send_line conn ''[SERVER] You can't chat with yourself.'' s
              else case get_socket s target of
                     None \<Rightarrow>
                       send_line conn (''[SERVER] User '' @ apos @ target @ apos @ '' not found.'') s
                   | Some target_sock \<Rightarrow>
                       (case chat_prepare username conn target s of
                          (False, s1) \<Rightarrow> s1
                        | (True, s1) \<Rightarrow> chat_commit username conn target target_sock (other s1)))"

definition three_idle :: server where
  \<comment> \<open>three registered sessions, nobody in a chat\<close>
  "three_idle = \<lparr>clients = [(''alice'', 1), (''bob'', 2), (''carol'', 3)], pairs = [],
                  sent = [], closed = []\<rparr>"

definition carol_chats_bob :: "server \<Rightarrow> server" where
  \<comment> \<open>carol's worker handles a whole \<^verbatim>\<open>/chat bob\<close> line\<close>
  "carol_chats_bob s = snd (handle_line ''carol'' 3 ''/chat bob\<newline>'' s)"

definition alice_chats_bob :: "server \<Rightarrow> server" where
  \<comment> \<open>alice's worker handles a whole \<^verbatim>\<open>/chat bob\<close> line\<close>
  "alice_chats_bob s = snd (handle_line ''alice'' 1 ''/chat bob\<newline>'' s)"

definition two_chats :: server where
  \<comment> \<open>four registered sessions in two chats\<close>
  "two_chats = \<lparr>clients = [(''alice'', 1), (''bob'', 2), (''carol'', 3), (''dave'', 4)],
                  pairs = [(''alice'', ''bob''), (''bob'', ''alice''),
                           (''carol'', ''dave''), (''dave'', ''carol'')],
                  sent = [], closed = []\<rparr>"

definition one_chat :: server where
  \<comment> \<open>alice and bob in a chat, carol registered and idle\<close>
  "one_chat = \<lparr>clients = [(''alice'', 1), (''bob'', 2), (''carol'', 3)],
                 pairs = [(''alice'', ''bob''), (''bob'', ''alice'')],
                 sent = [], closed = []\<rparr>"

definition lost_partner :: server where
  \<comment> \<open>alice's entry names bob, who is not registered\<close>
  "lost_partner = \<lparr>clients = [(''alice'', 1)], pairs = [(''alice'', ''bob'')],
                     sent = [], closed = []\<rparr>"

subsection \<open>Runs without interference\<close>

text \<open>
  \<open>serial\<close> are the states reached when every operation runs from its first guarded
  block to its last with no other worker in between, and only sessions that are in the
  registry handle lines. A name that is taken is answered as the source does it, with
  \<^verbatim>\<open>cleanup_user\<close> of that name.
\<close>

definition pairing_inv :: "server \<Rightarrow> bool" where
  \<comment> \<open>no empty name is registered, every entry of the pairing table points back and
      belongs to a registered name\<close>
  "pairing_inv s \<longleftrightarrow>
     get_socket s [] = None
     \<and> (\<forall>a b. get_partner s a = Some b \<longrightarrow> get_partner s b = Some a \<and> get_socket s a \<noteq> None)"

inductive serial :: "server \<Rightarrow> bool" where
  start: "serial \<lparr>clients = [], pairs = [], sent = [], closed = []\<rparr>"
| register: "serial s \<Longrightarrow> username \<noteq> [] \<Longrightarrow> get_socket s username = None \<Longrightarrow>
     serial (greet username conn (s\<lparr>clients := AList.update username conn (clients s)\<rparr>))"
| taken: "serial s \<Longrightarrow> username \<noteq> [] \<Longrightarrow> get_socket s username \<noteq> None \<Longrightarrow>
     serial (cleanup_user username (send_line conn ''[SERVER] Username already taken. Bye.'' s))"
| line: "serial s \<Longrightarrow> get_socket s username = Some conn \<Longrightarrow>
     serial (snd (handle_line username conn l s))"
| teardown: "serial s \<Longrightarrow> serial (cleanup_user username s)"

definition two_idle :: server where
  \<comment> \<open>two registered sessions, nobody in a chat\<close>
  "two_idle = \<lparr>clients = [(''alice'', 1), (''bob'', 2)], pairs = [], sent = [], closed = []\<rparr>"

definition evicted_worker_chats :: server where
  \<comment> \<open>a third connection answers \<^verbatim>\<open>bob\<close>; bob's worker, still in its loop, handles the
      \<^verbatim>\<open>/chat alice\<close> it had read; alice then sends a message\<close>
  "evicted_worker_chats =
     (let s1 = handle_client 3 [Line ''bob\<newline>''] two_idle;
          s2 = snd (handle_line ''bob'' 2 ''/chat alice\<newline>'' s1)
      in snd (handle_line ''alice'' 1 ''hi\<newline>'' s2))"

subsection \<open>Parsing facts\<close>

lemma dropWhile_same_length: "length (dropWhile P xs) = length xs \<Longrightarrow> dropWhile P xs = xs"
  using length_dropWhile_le [of P "tl xs"] by (cases xs) (auto split: if_splits)

lemma strip_fixed_pre:
  assumes "py_strip t = t"
  shows "dropWhile py_isspace t = t"
proof -
  have "length t = length (dropWhile py_isspace (rev (dropWhile py_isspace t)))"
    using assms by (metis length_rev py_strip_def)
  also have "\<dots> \<le> length (dropWhile py_isspace t)"
    by (metis length_dropWhile_le length_rev)
  finally have "length (dropWhile py_isspace t) = length t"
    using length_dropWhile_le [of py_isspace t] by simp
  then show ?thesis by (rule dropWhile_same_length)
qed

lemma strip_fixed_hd: "py_strip t = t \<Longrightarrow> t \<noteq> [] \<Longrightarrow> \<not> py_isspace (hd t)"
  using strip_fixed_pre [of t] by (simp add: dropWhile_eq_self_iff)

lemma strip_fixed_last:
  assumes "py_strip t = t" "t \<noteq> []"
  shows "\<not> py_isspace (last t)"
proof -
  have "rev (dropWhile py_isspace (rev t)) = t"
    using assms(1) strip_fixed_pre [OF assms(1)] by (simp add: py_strip_def)
  then have "dropWhile py_isspace (rev t) = rev t"
    by (metis rev_rev_ident)
  then show ?thesis using assms(2) by (simp add: dropWhile_eq_self_iff hd_rev)
qed

lemma rstrip_nl_append:
  assumes "t \<noteq> []" "last t \<noteq> CHR 0x0A"
  shows "rstrip_nl (t @ ''\<newline>'') = t"
proof -
  have "dropWhile (\<lambda>c. c = CHR 0x0A) (rev t) = rev t"
    using assms by (simp add: dropWhile_eq_self_iff hd_rev)
  then show ?thesis by (simp add: rstrip_nl_def)
qed

lemma isspace_nl: "py_isspace (CHR 0x0A)"
  by (simp add: py_isspace_def)

lemma split_chat:
  "t \<noteq> [] \<Longrightarrow> \<not> py_isspace (hd t) \<Longrightarrow> py_split1 (''/chat '' @ t) = [''/chat'', t]"
  by (cases t) (simp_all add: py_split1_def py_isspace_def)

lemma lower_chat: "py_lower ''/chat'' = ''/chat''"
  by code_simp

lemma handle_line_chat:
  assumes "target \<noteq> []" "py_strip target = target"
  shows "handle_line u c (''/chat '' @ target @ ''\<newline>'') s
         = (Continue, chat_cmd u c [''/chat'', target] s)"
proof -
  have l: "\<not> py_isspace (last target)" and h: "\<not> py_isspace (hd target)"
    using assms by (simp_all add: strip_fixed_last strip_fixed_hd)
  have "last (''/chat '' @ target) \<noteq> CHR 0x0A"
    using l assms(1) isspace_nl by auto
  then have r: "rstrip_nl ((''/chat '' @ target) @ ''\<newline>'') = ''/chat '' @ target"
    by (intro rstrip_nl_append) simp_all
  have sp: "py_split1 (''/chat '' @ target) = [''/chat'', target]"
    using assms(1) h by (rule split_chat)
  show ?thesis
    using r sp lower_chat by (simp add: handle_line_def)
qed

lemma handle_line_message:
  assumes "rstrip_nl line = msg" "msg \<noteq> []" "hd msg \<noteq> CHR ''/''"
  shows "handle_line u c line s = (Continue, route_message u c msg s)"
proof -
  have "line \<noteq> []" using assms by (auto simp: rstrip_nl_def)
  moreover have "take 1 msg \<noteq> ''/''" using assms(2,3) by (cases msg) auto
  ultimately show ?thesis using assms by (simp add: handle_line_def)
qed

lemma chat_cmd_valid:
  assumes "target \<noteq> []" "py_strip target = target" "target \<noteq> u"
    "get_socket s target = Some tk"
  shows "chat_cmd u c [''/chat'', target] s =
          (case chat_prepare u c target s of
             (False, s1) \<Rightarrow> s1
           | (True, s1) \<Rightarrow> chat_commit u c target tk s1)"
  using assms by (simp add: chat_cmd_def)

lemma chat_cmd_uninterrupted: "chat_cmd_interrupted (\<lambda>s. s) = chat_cmd"
  by (intro ext) (simp add: chat_cmd_interrupted_def chat_cmd_def)

subsection \<open>Idempotence of cleanup\<close>

lemma cleanup_user_clients_None: "map_of (clients (cleanup_user u s)) u = None"
  by (simp add: cleanup_user_def Let_def send_line_def safe_close_def delete_conv
      split: option.splits prod.splits)

lemma cleanup_user_pairs_None: "map_of (pairs (cleanup_user u s)) u = None"
  by (auto simp add: cleanup_user_def Let_def send_line_def safe_close_def delete_conv
      split: option.splits prod.splits if_splits)

lemma delete_absent: "map_of al k = None \<Longrightarrow> AList.delete k al = al"
  by (induction al) (auto split: if_splits)

lemma cleanup_user_absent:
  "map_of (clients s) u = None \<Longrightarrow> map_of (pairs s) u = None \<Longrightarrow> cleanup_user u s = s"
  by (simp add: cleanup_user_def Let_def delete_absent)

text \<open>
  C8. Running \<open>cleanup_user\<close> twice on the same identity gives the same state as running
  it once, for every identity and every state: the second call leaves the registry and
  the pairing table as they are, writes to no socket and closes none (both logs are part
  of the state that is equal).
\<close>

theorem cleanup_user_idempotent: "cleanup_user u (cleanup_user u s) = cleanup_user u s"
  by (rule cleanup_user_absent) (rule cleanup_user_clients_None, rule cleanup_user_pairs_None)

subsection \<open>Facts about the helpers\<close>

lemma unpair_locked_clients [simp]: "clients (unpair_locked u p s) = clients s"
  by (simp add: unpair_locked_def Let_def)

lemma unpair_locked_sent [simp]: "sent (unpair_locked u p s) = sent s"
  by (simp add: unpair_locked_def Let_def)

lemma unpair_locked_closed [simp]: "closed (unpair_locked u p s) = closed s"
  by (simp add: unpair_locked_def Let_def)

lemma unpair_locked_self: "map_of (pairs (unpair_locked u p s)) u = None"
  by (simp add: unpair_locked_def Let_def delete_conv)

lemma unpair_locked_back: "map_of (pairs (unpair_locked u p s)) p \<noteq> Some u"
  by (simp add: unpair_locked_def Let_def delete_conv)

lemma send_line_simps [simp]:
  "clients (send_line k t s) = clients s" "pairs (send_line k t s) = pairs s"
  "sent (send_line k t s) = sent s @ [(k, t)]" "closed (send_line k t s) = closed s"
  by (simp_all add: send_line_def)

lemma close_previous_facts:
  assumes "get_partner s u = Some old" "old \<noteq> []"
  shows "get_partner (close_previous u c s) u = None"
    and "get_partner (close_previous u c s) old \<noteq> Some u"
    and "clients (close_previous u c s) = clients s"
    and "closed (close_previous u c s) = closed s"
    and "sent (close_previous u c s) = sent s
           @ (case get_socket s old of None \<Rightarrow> []
              | Some ok \<Rightarrow> [(ok, ''[SERVER] '' @ u @ '' left the chat.'')])
           @ [(c, ''[SERVER] Left previous chat with '' @ old @ ''.'')]"
  using assms
  by (simp_all add: close_previous_def get_partner_def get_socket_def Let_def
      unpair_locked_self unpair_locked_back split: option.splits)

lemma chat_prepare_eq:
  "chat_prepare u c target s =
     (case get_partner (close_previous u c s) target of
        None \<Rightarrow> (True, close_previous u c s)
      | Some tp \<Rightarrow>
          if tp \<noteq> [] \<and> tp \<noteq> u
          then (False, send_line c (''[SERVER] '' @ apos @ target @ apos
                  @ '' is already chatting with '' @ apos @ tp @ apos @ ''.'')
                  (close_previous u c s))
          else (True, close_previous u c s))"
  by (simp add: chat_prepare_def Let_def)

section \<open>Registration with a name that is taken\<close>

text \<open>
  C1. A connection that supplies a name already in the registry is told that the name
  is taken; the claim is that nothing else happens. The worker has by then stored the
  name in \<^verbatim>\<open>username\<close>, so its \<^verbatim>\<open>finally\<close> block runs \<^verbatim>\<open>cleanup_user\<close> on the name of
  the established session. With alice (socket 1) chatting with bob (socket 2), a third
  connection that answers \<^verbatim>\<open>alice\<close> removes alice from the registry, empties the
  pairing table, tells bob that alice disconnected and closes socket 1; socket 3 is
  not closed by \<^verbatim>\<open>safe_close\<close>.
\<close>

theorem duplicate_name_evicts_holder:
  "handle_client 3 [Line ''alice\<newline>'']
     \<lparr>clients = [(''alice'', 1), (''bob'', 2)],
      pairs = [(''alice'', ''bob''), (''bob'', ''alice'')], sent = [], closed = []\<rparr>
   = \<lparr>clients = [(''bob'', 2)], pairs = [],
      sent = [(3, ''[SERVER] Welcome! Enter your username:''),
              (3, ''[SERVER] Username already taken. Bye.''),
              (2, ''[SERVER] alice disconnected. Chat closed.'')],
      closed = [1]\<rparr>"
  by code_simp

section \<open>Atomicity of the pairing transition\<close>

text \<open>
  C2. The claim is that the whole \<^verbatim>\<open>/chat\<close> transition is one critical section. In the
  source it is a sequence of critical sections, and the lock is free between them. With
  alice, bob and carol registered and idle, let alice's worker run \<^verbatim>\<open>/chat bob\<close> up to and
  including \<^verbatim>\<open>get_partner(target)\<close>, let carol's worker then handle a whole
  \<^verbatim>\<open>/chat bob\<close>, and let alice's worker go on with \<^verbatim>\<open>set_pair\<close>. The pairing table that
  results is the one of neither order of the two commands run one after the other:
  carol's worker changed the table inside alice's transition.
\<close>

theorem chat_race_not_serial:
  "pairs (chat_cmd_interrupted carol_chats_bob ''alice'' 1 [''/chat'', ''bob''] three_idle)
     = [(''carol'', ''bob''), (''bob'', ''alice''), (''alice'', ''bob'')]
   \<and> pairs (carol_chats_bob (alice_chats_bob three_idle))
     = [(''alice'', ''bob''), (''bob'', ''alice'')]
   \<and> pairs (alice_chats_bob (carol_chats_bob three_idle))
     = [(''carol'', ''bob''), (''bob'', ''carol'')]"
  by code_simp

section \<open>Symmetry of the pairing table\<close>

text \<open>
  C3. The claim is that in every reachable state a partner's entry points back unless
  the partner is not registered. Two runs of the server end in a state where it does
  not. After the schedule of the previous section carol's partner is bob, bob is
  registered, and bob's partner is alice. And with alice and bob registered and idle:
  a third connection answers \<^verbatim>\<open>bob\<close>, which removes bob from the registry; bob's worker
  handles the \<^verbatim>\<open>/chat alice\<close> it had already read; alice sends a message, finds her
  partner missing from the registry and drops her own entry. Then bob's partner is
  alice, alice is registered, and alice has no partner.
\<close>

theorem pairing_symmetry_broken:
  "get_partner (chat_cmd_interrupted carol_chats_bob ''alice'' 1 [''/chat'', ''bob''] three_idle)
     ''carol'' = Some ''bob''
   \<and> get_partner (chat_cmd_interrupted carol_chats_bob ''alice'' 1 [''/chat'', ''bob''] three_idle)
     ''bob'' = Some ''alice''
   \<and> get_socket (chat_cmd_interrupted carol_chats_bob ''alice'' 1 [''/chat'', ''bob''] three_idle)
     ''bob'' = Some 2
   \<and> get_partner evicted_worker_chats ''bob'' = Some ''alice''
   \<and> get_partner evicted_worker_chats ''alice'' = None
   \<and> get_socket evicted_worker_chats ''alice'' = Some 1"
  by code_simp

section \<open>The order of the steps of \<^verbatim>\<open>/chat\<close>\<close>

text \<open>
  C5. A sender \<open>u\<close> whose partner is \<open>old\<close> sends \<^verbatim>\<open>/chat target\<close>, the target being
  non-blank, not \<open>u\<close> and registered. The old chat is closed first, giving the state
  \<open>s1\<close>: there \<open>u\<close> has no partner, \<open>old\<close> does not point back at \<open>u\<close>, \<open>old\<close> (when
  it is registered, on its socket) has been sent the "left the chat" notice and then
  \<open>u\<close> the "Left previous chat" notice. The busy check is made on \<open>s1\<close>; when it refuses,
  the result is \<open>s1\<close> with the refusal sent, so \<open>u\<close> stays unpaired.
\<close>

theorem chat_switch_order:
  assumes "get_partner s u = Some old" and "old \<noteq> []"
    and "target \<noteq> []" and "py_strip target = target" and "target \<noteq> u"
    and "get_socket s target = Some tk"
  shows "let s1 = close_previous u c s;
             r = snd (handle_line u c (''/chat '' @ target @ ''\<newline>'') s)
         in get_partner s1 u = None \<and> get_partner s1 old \<noteq> Some u
            \<and> sent s1 = sent s
                 @ (case get_socket s old of None \<Rightarrow> []
                    | Some ok \<Rightarrow> [(ok, ''[SERVER] '' @ u @ '' left the chat.'')])
                 @ [(c, ''[SERVER] Left previous chat with '' @ old @ ''.'')]
            \<and> r = (case get_partner s1 target of
                     None \<Rightarrow> chat_commit u c target tk s1
                   | Some tp \<Rightarrow>
                       if tp \<noteq> [] \<and> tp \<noteq> u
                       then send_line c (''[SERVER] '' @ apos @ target @ apos
                              @ '' is already chatting with '' @ apos @ tp @ apos @ ''.'') s1
                       else chat_commit u c target tk s1)
            \<and> ((\<exists>tp. get_partner s1 target = Some tp \<and> tp \<noteq> [] \<and> tp \<noteq> u)
                 \<longrightarrow> get_partner r u = None \<and> pairs r = pairs s1)"
proof -
  have r: "snd (handle_line u c (''/chat '' @ target @ ''\<newline>'') s)
           = (case chat_prepare u c target s of
                (False, s1) \<Rightarrow> s1
              | (True, s1) \<Rightarrow> chat_commit u c target tk s1)"
    by (simp only: handle_line_chat [OF assms(3,4)] chat_cmd_valid [OF assms(3-6)] snd_conv)
  show ?thesis
    unfolding Let_def r chat_prepare_eq
    using close_previous_facts [OF assms(1,2), of c]
    by (auto simp add: get_partner_def split: option.splits)
qed

theorem chat_switch_order_witness:
  "get_partner two_chats ''alice'' = Some ''bob'' \<and> get_socket two_chats ''carol'' = Some 3
   \<and> get_partner (snd (handle_line ''alice'' 1 ''/chat carol\<newline>'' two_chats)) ''alice'' = None
   \<and> sent (close_previous ''alice'' 1 two_chats)
       = [(2, ''[SERVER] alice left the chat.''), (1, ''[SERVER] Left previous chat with bob.'')]"
proof -
  have h1: "get_partner two_chats ''alice'' = Some ''bob''" by code_simp
  have h2: "''bob'' \<noteq> []" by simp
  have h3: "''carol'' \<noteq> []" by simp
  have h4: "py_strip ''carol'' = ''carol''" by code_simp
  have h5: "''carol'' \<noteq> ''alice''" by simp
  have h6: "get_socket two_chats ''carol'' = Some 3" by code_simp
  have busy: "get_partner (close_previous ''alice'' 1 two_chats) ''carol'' = Some ''dave''"
    by code_simp
  have old: "get_socket two_chats ''bob'' = Some 2" by code_simp
  have nil: "sent two_chats = []" by code_simp
  show ?thesis
    using chat_switch_order [OF h1 h2 h3 h4 h5 h6, of 1] h1 h6 busy old nil
    by (simp add: Let_def get_partner_def)
qed

section \<open>Teardown\<close>

lemma delete_key_absent: "u \<notin> fst ` set (AList.delete u al)"
  by (induction al) auto

lemma main_loop_exit:
  "main_loop u c [] s = s"
  "main_loop u c (Line [] # rest) s = s"
  "main_loop u c (ReadError # rest) s = s"
  by (simp_all add: handle_line_def)

lemma handle_line_quit:
  "handle_line u c ''/quit\<newline>'' s = (Break, send_line c ''[SERVER] Bye.'' s)"
proof -
  have "rstrip_nl ''/quit\<newline>'' = ''/quit''" by code_simp
  moreover have "py_split1 ''/quit'' = [''/quit'']" by code_simp
  moreover have "py_lower ''/quit'' = ''/quit''" by code_simp
  ultimately show ?thesis by (simp add: handle_line_def)
qed

lemma main_loop_quit:
  "main_loop u c (Line ''/quit\<newline>'' # rest) s = send_line c ''[SERVER] Bye.'' s"
  by (simp only: main_loop.simps handle_line_quit) simp

lemma cleanup_user_paired:
  assumes "get_socket s u = Some c" and "get_partner s u = Some p"
    and "get_partner s p = Some u" and "p \<noteq> u" and "get_socket s p = Some pk"
  shows "cleanup_user u s =
           s\<lparr>clients := AList.delete u (clients s),
             pairs := AList.delete p (AList.delete u (pairs s)),
             sent := sent s @ [(pk, ''[SERVER] '' @ u @ '' disconnected. Chat closed.'')],
             closed := closed s @ [c]\<rparr>"
  using assms
  by (simp add: cleanup_user_def get_socket_def get_partner_def Let_def delete_conv
      send_line_def safe_close_def)

text \<open>
  C4. A registered session \<open>u\<close> on socket \<open>c\<close>, paired both ways with a registered
  partner \<open>p\<close> on socket \<open>pk\<close>, leaves its main loop: the stream is at its end, a read
  raises, or the line is \<^verbatim>\<open>/quit\<close>. After the \<^verbatim>\<open>finally\<close> block \<open>u\<close> is in neither
  table, \<open>p\<close> has no partner and is still registered, what was written is (after the
  goodbye to \<open>u\<close> in the case of \<^verbatim>\<open>/quit\<close>) exactly one notice, to \<open>pk\<close>, that \<open>u\<close>
  disconnected, socket \<open>c\<close> is closed, and \<open>u\<close> is in nobody's list of users.
\<close>

theorem teardown_cleanup:
  assumes "get_socket s u = Some c" and "get_partner s u = Some p"
    and "get_partner s p = Some u" and "p \<noteq> u" and "get_socket s p = Some pk"
    and "input = [] \<or> input = Line [] # rest \<or> input = ReadError # rest
         \<or> input = Line ''/quit\<newline>'' # rest"
  shows "let s' = serve u c input s
         in get_socket s' u = None \<and> get_partner s' u = None \<and> get_partner s' p = None
            \<and> get_socket s' p = Some pk
            \<and> sent s' = sent s
                 @ (if input = Line ''/quit\<newline>'' # rest then [(c, ''[SERVER] Bye.'')] else [])
                 @ [(pk, ''[SERVER] '' @ u @ '' disconnected. Chat closed.'')]
            \<and> closed s' = closed s @ [c]
            \<and> (\<forall>x. u \<notin> set (list_users s' x))"
proof -
  define s0 where "s0 = main_loop u c input s"
  have s0: "s0 = (if input = Line ''/quit\<newline>'' # rest then send_line c ''[SERVER] Bye.'' s else s)"
    using assms(6) unfolding s0_def
    by (auto simp add: main_loop_exit main_loop_quit simp del: main_loop.simps)
  have pre: "get_socket s0 u = Some c" "get_partner s0 u = Some p" "get_partner s0 p = Some u"
    "get_socket s0 p = Some pk"
    using assms(1,2,3,5) by (simp_all add: s0 get_socket_def get_partner_def)
  have sv: "serve u c input s = cleanup_user u s0"
    by (simp add: serve_def s0_def)
  show ?thesis
    unfolding Let_def sv cleanup_user_paired [OF pre(1,2,3) assms(4) pre(4)]
    using assms(4,5) delete_key_absent [of u "clients s0"]
    by (auto simp add: get_socket_def get_partner_def delete_conv list_users_def s0)
qed

theorem teardown_cleanup_witness:
  "get_socket one_chat ''alice'' = Some 1 \<and> get_partner one_chat ''alice'' = Some ''bob''
   \<and> get_partner one_chat ''bob'' = Some ''alice'' \<and> get_socket one_chat ''bob'' = Some 2
   \<and> get_partner (serve ''alice'' 1 [Line ''/quit\<newline>''] one_chat) ''bob'' = None
   \<and> get_socket (serve ''alice'' 1 [Line ''/quit\<newline>''] one_chat) ''alice'' = None
   \<and> sent (serve ''alice'' 1 [Line ''/quit\<newline>''] one_chat)
       = [(1, ''[SERVER] Bye.''), (2, ''[SERVER] alice disconnected. Chat closed.'')]
   \<and> closed (serve ''alice'' 1 [Line ''/quit\<newline>''] one_chat) = [1]
   \<and> ''alice'' \<notin> set (list_users (serve ''alice'' 1 [Line ''/quit\<newline>''] one_chat) ''bob'')"
proof -
  have h1: "get_socket one_chat ''alice'' = Some 1" by code_simp
  have h2: "get_partner one_chat ''alice'' = Some ''bob''" by code_simp
  have h3: "get_partner one_chat ''bob'' = Some ''alice''" by code_simp
  have h4: "''bob'' \<noteq> ''alice''" by simp
  have h5: "get_socket one_chat ''bob'' = Some 2" by code_simp
  have h6: "[Line ''/quit\<newline>''] = [] \<or> [Line ''/quit\<newline>''] = Line [] # []
            \<or> [Line ''/quit\<newline>''] = ReadError # []
            \<or> [Line ''/quit\<newline>''] = Line ''/quit\<newline>'' # []" by simp
  have nil: "sent one_chat = []" "closed one_chat = []" by code_simp+
  show ?thesis
    using teardown_cleanup [OF h1 h2 h3 h4 h5 h6] h1 h2 h3 h5 nil
    by (simp add: Let_def)
qed

section \<open>A target that is busy\<close>

text \<open>
  C6. A sender \<open>u\<close> without partner sends \<^verbatim>\<open>/chat target\<close>; the target is registered and
  paired both ways with \<open>p\<close>, who is not \<open>u\<close>. The only effect is the refusal written to
  the sender: both tables are as before, the target and \<open>p\<close> are still partners and
  \<open>u\<close> still has none.
\<close>

theorem chat_busy_target_refused:
  assumes "get_partner s u = None"
    and "get_partner s target = Some p" and "get_partner s p = Some target"
    and "p \<noteq> u" and "p \<noteq> []"
    and "target \<noteq> []" and "py_strip target = target"
    and "get_socket s target = Some tk"
  shows "let r = snd (handle_line u c (''/chat '' @ target @ ''\<newline>'') s)
         in r = send_line c (''[SERVER] '' @ apos @ target @ apos
                  @ '' is already chatting with '' @ apos @ p @ apos @ ''.'') s
            \<and> pairs r = pairs s \<and> clients r = clients s
            \<and> get_partner r target = Some p \<and> get_partner r p = Some target
            \<and> get_partner r u = None"
proof -
  have tu: "target \<noteq> u" using assms(1,2) by auto
  have cp: "close_previous u c s = s"
    using assms(1) by (simp add: close_previous_def)
  have r: "snd (handle_line u c (''/chat '' @ target @ ''\<newline>'') s)
           = (case chat_prepare u c target s of
                (False, s1) \<Rightarrow> s1
              | (True, s1) \<Rightarrow> chat_commit u c target tk s1)"
    by (simp only: handle_line_chat [OF assms(6,7)] chat_cmd_valid [OF assms(6,7) tu assms(8)]
        snd_conv)
  show ?thesis
    unfolding Let_def r chat_prepare_eq cp
    using assms(1-5) by (simp add: get_partner_def)
qed

theorem chat_busy_target_refused_witness:
  "get_partner one_chat ''carol'' = None \<and> get_partner one_chat ''bob'' = Some ''alice''
   \<and> get_partner one_chat ''alice'' = Some ''bob'' \<and> get_socket one_chat ''bob'' = Some 2
   \<and> pairs (snd (handle_line ''carol'' 3 ''/chat bob\<newline>'' one_chat)) = pairs one_chat
   \<and> sent (snd (handle_line ''carol'' 3 ''/chat bob\<newline>'' one_chat))
       = [(3, ''[SERVER] '' @ apos @ ''bob'' @ apos @ '' is already chatting with ''
               @ apos @ ''alice'' @ apos @ ''.'')]"
proof -
  have h1: "get_partner one_chat ''carol'' = None" by code_simp
  have h2: "get_partner one_chat ''bob'' = Some ''alice''" by code_simp
  have h3: "get_partner one_chat ''alice'' = Some ''bob''" by code_simp
  have h4: "''alice'' \<noteq> ''carol''" by simp
  have h5: "''alice'' \<noteq> []" by simp
  have h6: "''bob'' \<noteq> []" by simp
  have h7: "py_strip ''bob'' = ''bob''" by code_simp
  have h8: "get_socket one_chat ''bob'' = Some 2" by code_simp
  have nil: "sent one_chat = []" by code_simp
  show ?thesis
    using chat_busy_target_refused [OF h1 h2 h3 h4 h5 h6 h7 h8, of 3] h1 h2 h3 h8 nil
    by (simp add: Let_def)
qed

section \<open>Message routing\<close>

text \<open>
  C7. A line whose text (the line without its trailing newlines) is not empty and does
  not begin with \<^verbatim>\<open>/\<close>: a sender without entry in the pairing table gets the "not in a
  chat" notice and nothing else is written; when the partner (a non-empty name) is not
  in the registry, the sender's entry is removed and the sender is told that the partner
  disconnected; otherwise the partner's socket is sent the sender's name, a colon, a
  space and the text. In each case the log of writes grows by exactly that one line, on
  the socket named, and the registry, the log of closes and (but for the removed entry)
  the pairing table are as before.
\<close>

theorem message_routing:
  assumes "rstrip_nl line = msg" and "msg \<noteq> []" and "hd msg \<noteq> CHR ''/''"
  shows "(get_partner s u = None \<longrightarrow>
            handle_line u c line s =
              (Continue, send_line c
                 ''[SERVER] You're not in a chat. Use /users then /chat <username>.'' s)
            \<and> sent (snd (handle_line u c line s)) = sent s
                 @ [(c, ''[SERVER] You're not in a chat. Use /users then /chat <username>.'')]
            \<and> pairs (snd (handle_line u c line s)) = pairs s
            \<and> clients (snd (handle_line u c line s)) = clients s
            \<and> closed (snd (handle_line u c line s)) = closed s)
       \<and> (\<forall>p. get_partner s u = Some p \<and> p \<noteq> [] \<and> get_socket s p = None \<longrightarrow>
            handle_line u c line s =
              (Continue, send_line c ''[SERVER] Partner disconnected. Chat closed.''
                 (s\<lparr>pairs := AList.delete u (pairs s)\<rparr>))
            \<and> sent (snd (handle_line u c line s)) = sent s
                 @ [(c, ''[SERVER] Partner disconnected. Chat closed.'')]
            \<and> pairs (snd (handle_line u c line s)) = AList.delete u (pairs s)
            \<and> get_partner (snd (handle_line u c line s)) u = None
            \<and> clients (snd (handle_line u c line s)) = clients s
            \<and> closed (snd (handle_line u c line s)) = closed s)
       \<and> (\<forall>p pk. get_partner s u = Some p \<and> p \<noteq> [] \<and> get_socket s p = Some pk \<longrightarrow>
            handle_line u c line s = (Continue, send_line pk (u @ '': '' @ msg) s)
            \<and> sent (snd (handle_line u c line s)) = sent s @ [(pk, u @ '': '' @ msg)]
            \<and> pairs (snd (handle_line u c line s)) = pairs s
            \<and> clients (snd (handle_line u c line s)) = clients s
            \<and> closed (snd (handle_line u c line s)) = closed s)"
  unfolding handle_line_message [OF assms]
  by (simp add: route_message_def get_partner_def delete_conv)

theorem message_routing_witness:
  "handle_line ''carol'' 3 ''hello\<newline>'' one_chat
     = (Continue, send_line 3
          ''[SERVER] You're not in a chat. Use /users then /chat <username>.'' one_chat)
   \<and> sent (snd (handle_line ''carol'' 3 ''hello\<newline>'' one_chat))
     = [(3, ''[SERVER] You're not in a chat. Use /users then /chat <username>.'')]
   \<and> handle_line ''alice'' 1 ''hello\<newline>'' lost_partner
     = (Continue, send_line 1 ''[SERVER] Partner disconnected. Chat closed.''
          (lost_partner\<lparr>pairs := AList.delete ''alice'' (pairs lost_partner)\<rparr>))
   \<and> sent (snd (handle_line ''alice'' 1 ''hello\<newline>'' lost_partner))
     = [(1, ''[SERVER] Partner disconnected. Chat closed.'')]
   \<and> pairs (snd (handle_line ''alice'' 1 ''hello\<newline>'' lost_partner)) = []
   \<and> handle_line ''alice'' 1 ''hello\<newline>'' one_chat
     = (Continue, send_line 2 ''alice: hello'' one_chat)
   \<and> sent (snd (handle_line ''alice'' 1 ''hello\<newline>'' one_chat)) = [(2, ''alice: hello'')]
   \<and> pairs (snd (handle_line ''alice'' 1 ''hello\<newline>'' one_chat)) = pairs one_chat"
proof -
  have m1: "rstrip_nl ''hello\<newline>'' = ''hello''" by code_simp
  have m2: "''hello'' \<noteq> []" by simp
  have m3: "hd ''hello'' \<noteq> CHR ''/''" by simp
  have a: "get_partner one_chat ''carol'' = None" by code_simp
  have b: "get_partner lost_partner ''alice'' = Some ''bob''"
    "get_socket lost_partner ''bob'' = None" by code_simp+
  have c: "get_partner one_chat ''alice'' = Some ''bob''"
    "get_socket one_chat ''bob'' = Some 2" by code_simp+
  have n: "sent one_chat = []" "sent lost_partner = []"
    "AList.delete ''alice'' (pairs lost_partner) = []" by code_simp+
  show ?thesis
    using message_routing [OF m1 m2 m3, of one_chat "''carol''" 3]
      message_routing [OF m1 m2 m3, of lost_partner "''alice''" 1]
      message_routing [OF m1 m2 m3, of one_chat "''alice''" 1] a b c n
    by simp
qed

section \<open>The list of users\<close>

lemma handle_line_users: "handle_line u c ''/users\<newline>'' s = (Continue, users_cmd u c s)"
proof -
  have "rstrip_nl ''/users\<newline>'' = ''/users''" by code_simp
  moreover have "py_split1 ''/users'' = [''/users'']" by code_simp
  moreover have "py_lower ''/users'' = ''/users''" by code_simp
  ultimately show ?thesis by (simp add: handle_line_def)
qed

text \<open>
  C9. The reply to \<^verbatim>\<open>/users\<close> is written to the requester only and nothing else
  changes: the log of writes grows by that one line on the requester's socket, and the
  registry, the pairing table and the log of closes are as before.
  It is the notice that nobody else is online when \<open>list_users\<close> is empty,
  and otherwise the names of \<open>list_users\<close> joined by a comma and a space. That list
  is sorted in the lexicographic order of strings, its elements are exactly the
  registered names other than the requester's, and it has no repetition (the keys of
  a dictionary are distinct).
\<close>

theorem users_reply:
  "handle_line u c ''/users\<newline>'' s =
     (Continue,
      send_line c (if list_users s u = [] then ''[SERVER] No other users online.''
                   else ''[SERVER] Online: '' @ py_join '', '' (list_users s u)) s)
   \<and> sent (snd (handle_line u c ''/users\<newline>'' s)) = sent s
        @ [(c, if list_users s u = [] then ''[SERVER] No other users online.''
               else ''[SERVER] Online: '' @ py_join '', '' (list_users s u))]
   \<and> clients (snd (handle_line u c ''/users\<newline>'' s)) = clients s
   \<and> pairs (snd (handle_line u c ''/users\<newline>'' s)) = pairs s
   \<and> closed (snd (handle_line u c ''/users\<newline>'' s)) = closed s
   \<and> sorted (list_users s u)
   \<and> set (list_users s u) = {v. get_socket s v \<noteq> None \<and> v \<noteq> u}
   \<and> (distinct (map fst (clients s)) \<longrightarrow> distinct (list_users s u))"
proof -
  have "set (list_users s u) = {v. get_socket s v \<noteq> None \<and> v \<noteq> u}"
    by (auto simp add: list_users_def get_socket_def map_of_eq_None_iff)
  moreover have "sorted (list_users s u)"
    by (simp add: list_users_def)
  moreover have "distinct (map fst (clients s)) \<longrightarrow> distinct (list_users s u)"
    by (simp add: list_users_def)
  moreover have r: "handle_line u c ''/users\<newline>'' s =
     (Continue,
      send_line c (if list_users s u = [] then ''[SERVER] No other users online.''
                   else ''[SERVER] Online: '' @ py_join '', '' (list_users s u)) s)"
    by (simp add: handle_line_users users_cmd_def Let_def)
  moreover have "sent (snd (handle_line u c ''/users\<newline>'' s)) = sent s
        @ [(c, if list_users s u = [] then ''[SERVER] No other users online.''
               else ''[SERVER] Online: '' @ py_join '', '' (list_users s u))]"
    and "clients (snd (handle_line u c ''/users\<newline>'' s)) = clients s"
    and "pairs (snd (handle_line u c ''/users\<newline>'' s)) = pairs s"
    and "closed (snd (handle_line u c ''/users\<newline>'' s)) = closed s"
    by (simp_all add: r)
  ultimately show ?thesis by blast
qed

theorem users_reply_witness:
  "distinct (map fst (clients one_chat))
   \<and> distinct (list_users one_chat ''alice'')
   \<and> list_users one_chat ''alice'' = [''bob'', ''carol'']
   \<and> handle_line ''alice'' 1 ''/users\<newline>'' one_chat
       = (Continue, send_line 1 ''[SERVER] Online: bob, carol'' one_chat)
   \<and> sent (snd (handle_line ''alice'' 1 ''/users\<newline>'' one_chat))
       = [(1, ''[SERVER] Online: bob, carol'')]
   \<and> clients (snd (handle_line ''alice'' 1 ''/users\<newline>'' one_chat)) = clients one_chat
   \<and> pairs (snd (handle_line ''alice'' 1 ''/users\<newline>'' one_chat)) = pairs one_chat"
proof -
  have d: "distinct (map fst (clients one_chat))" by code_simp
  have l: "list_users one_chat ''alice'' = [''bob'', ''carol'']" by code_simp
  have n: "sent one_chat = []" by code_simp
  show ?thesis
    using users_reply [of "''alice''" 1 one_chat] d l n by simp
qed

section \<open>Blank lines and lines of whitespace\<close>

lemma if_list_Nil: "((if a then [] else if b then [w] else [w, r]) = []) = a"
  by simp

lemma split1_Nil_iff: "py_split1 m = [] \<longleftrightarrow> dropWhile py_isspace m = []"
  unfolding py_split1_def Let_def by (rule if_list_Nil)

lemma split1_nonempty:
  assumes "m \<noteq> []" "\<not> py_isspace (hd m)"
  shows "py_split1 m \<noteq> []"
proof -
  have "dropWhile py_isspace m = m"
    using assms by (simp add: dropWhile_eq_self_iff)
  then show ?thesis
    using assms(1) unfolding split1_Nil_iff by simp
qed

lemma slash_not_space: "\<not> py_isspace (CHR ''/'')"
  by (simp add: py_isspace_def)

lemma close_previous_sent: "length (sent s) \<le> length (sent (close_previous u c s))"
  by (simp add: close_previous_def Let_def split: option.splits)

lemma chat_commit_sent: "length (sent s) < length (sent (chat_commit u c t k s))"
  by (simp add: chat_commit_def set_pair_def Let_def)

lemma chat_prepare_sent: "length (sent s) \<le> length (sent (snd (chat_prepare u c t s)))"
  using close_previous_sent [of s u c]
  by (simp add: chat_prepare_eq split: option.splits)

lemma chat_prepare_refused_sent:
  "\<not> fst (chat_prepare u c t s) \<Longrightarrow> length (sent s) < length (sent (snd (chat_prepare u c t s)))"
  using close_previous_sent [of s u c]
  by (simp add: chat_prepare_eq split: option.splits if_splits)



lemma chat_tail_sent:
  "length (sent s)
     < length (sent (case chat_prepare u c t s of
                       (False, s1) \<Rightarrow> s1
                     | (True, s1) \<Rightarrow> chat_commit u c t k s1))"
proof (cases "chat_prepare u c t s")
  case (Pair ok s1)
  have le: "length (sent s) \<le> length (sent s1)"
    using chat_prepare_sent [of s u c t] Pair by simp
  have lt: "\<not> ok \<Longrightarrow> length (sent s) < length (sent s1)"
    using chat_prepare_refused_sent [of u c t s] Pair by simp
  have cm: "length (sent s) < length (sent (chat_commit u c t k s1))"
    using le chat_commit_sent [of s1 u c t k] by simp
  show ?thesis
    using lt cm by (cases ok) (simp_all add: Pair)
qed

lemma chat_cmd_sent: "length (sent s) < length (sent (chat_cmd u c parts s))"
  by (simp add: chat_cmd_def Let_def chat_tail_sent split: option.splits)

lemma users_cmd_sent: "length (sent s) < length (sent (users_cmd u c s))"
  by (simp add: users_cmd_def Let_def)

lemma leave_cmd_sent: "length (sent s) < length (sent (leave_cmd u c s))"
  by (simp add: leave_cmd_def Let_def split: option.splits)

lemma route_message_sent: "length (sent s) < length (sent (route_message u c msg s))"
  by (simp add: route_message_def split: option.splits)


lemma rstrip_nl_nonempty: "rstrip_nl line \<noteq> [] \<Longrightarrow> line \<noteq> []"
  by (auto simp: rstrip_nl_def)

lemma handle_line_command:
  assumes "rstrip_nl line \<noteq> []" and "take 1 (rstrip_nl line) = ''/''"
  shows "\<exists>p0 ps. py_split1 (rstrip_nl line) = p0 # ps"
proof -
  have "hd (rstrip_nl line) = CHR ''/''"
    using assms(2) by (cases "rstrip_nl line") auto
  then have "py_split1 (rstrip_nl line) \<noteq> []"
    using assms(1) slash_not_space by (intro split1_nonempty) simp_all
  then show ?thesis
    by (cases "py_split1 (rstrip_nl line)") auto
qed

lemma handle_line_sent:
  assumes "rstrip_nl line \<noteq> []"
  shows "length (sent s) < length (sent (snd (handle_line u c line s)))"
proof (cases "take 1 (rstrip_nl line) = ''/''")
  case True
  obtain p0 ps where sp: "py_split1 (rstrip_nl line) = p0 # ps"
    using handle_line_command [OF assms True] by blast
  show ?thesis
    using rstrip_nl_nonempty [OF assms] assms True
    by (simp add: handle_line_def Let_def sp users_cmd_sent chat_cmd_sent leave_cmd_sent)
next
  case False
  show ?thesis
    using rstrip_nl_nonempty [OF assms] assms False
    by (simp add: handle_line_def Let_def route_message_sent)
qed

text \<open>
  C10. The main loop leaves the state as it is and goes on exactly when the line is not
  the end of the stream and is empty once its trailing newlines are removed. A line
  whose text is not empty and consists of whitespace only (a single space, say) is
  routed as a message: a sender without partner gets the "not in a chat" notice, and
  a sender whose partner is registered has the text forwarded after the sender's name.
\<close>

theorem whitespace_line_is_message:
  "((handle_line u c line s = (Continue, s)) = (line \<noteq> [] \<and> rstrip_nl line = []))
   \<and> (rstrip_nl line \<noteq> [] \<and> (\<forall>ch \<in> set (rstrip_nl line). py_isspace ch) \<longrightarrow>
        (get_partner s u = None \<longrightarrow>
             handle_line u c line s =
               (Continue, send_line c
                  ''[SERVER] You're not in a chat. Use /users then /chat <username>.'' s))
        \<and> (\<forall>p pk. get_partner s u = Some p \<and> p \<noteq> [] \<and> get_socket s p = Some pk \<longrightarrow>
             handle_line u c line s =
               (Continue, send_line pk (u @ '': '' @ rstrip_nl line) s)))"
proof -
  have ignored: "(handle_line u c line s = (Continue, s)) = (line \<noteq> [] \<and> rstrip_nl line = [])"
  proof
    assume ign: "handle_line u c line s = (Continue, s)"
    have "line \<noteq> []"
      using ign by (auto simp add: handle_line_def)
    moreover have "rstrip_nl line = []"
    proof (rule ccontr)
      assume "rstrip_nl line \<noteq> []"
      then have "length (sent s) < length (sent (snd (handle_line u c line s)))"
        by (rule handle_line_sent)
      then show False by (simp add: ign)
    qed
    ultimately show "line \<noteq> [] \<and> rstrip_nl line = []" by simp
  next
    assume "line \<noteq> [] \<and> rstrip_nl line = []"
    then show "handle_line u c line s = (Continue, s)"
      by (simp add: handle_line_def)
  qed
  have routed: "handle_line u c line s = (Continue, route_message u c (rstrip_nl line) s)"
    if ws: "rstrip_nl line \<noteq> [] \<and> (\<forall>ch \<in> set (rstrip_nl line). py_isspace ch)"
  proof -
    have "py_isspace (hd (rstrip_nl line))" using ws by simp
    then have "hd (rstrip_nl line) \<noteq> CHR ''/''"
      using slash_not_space by auto
    then show ?thesis
      using ws by (intro handle_line_message) simp_all
  qed
  show ?thesis
    using routed by (simp add: ignored route_message_def)
qed

theorem whitespace_line_is_message_witness:
  "rstrip_nl '' \<newline>'' = '' '' \<and> py_isspace (CHR '' '')
   \<and> handle_line ''alice'' 1 '' \<newline>'' one_chat
       = (Continue, send_line 2 ''alice:  '' one_chat)
   \<and> handle_line ''carol'' 3 '' \<newline>'' one_chat
       = (Continue, send_line 3
            ''[SERVER] You're not in a chat. Use /users then /chat <username>.'' one_chat)"
proof -
  have m: "rstrip_nl '' \<newline>'' = '' ''" by code_simp
  have w: "py_isspace (CHR '' '')" by (simp add: py_isspace_def)
  have a: "get_partner one_chat ''carol'' = None" by code_simp
  have c: "get_partner one_chat ''alice'' = Some ''bob''"
    "get_socket one_chat ''bob'' = Some 2" by code_simp+
  show ?thesis
    using whitespace_line_is_message [of "''alice''" 1 "'' \<newline>''" one_chat]
      whitespace_line_is_message [of "''carol''" 3 "'' \<newline>''" one_chat] m w a c
    by simp
qed

section \<open>Symmetry in runs without interference\<close>

text \<open>
  When no worker runs between the guarded blocks of another and only registered
  sessions handle lines, every operation keeps \<open>pairing_inv\<close>, so the pairing table is
  symmetric in every state of \<open>serial\<close>.
\<close>

lemma pairing_inv_send_line [simp]: "pairing_inv (send_line k t s) = pairing_inv s"
  by (simp add: pairing_inv_def get_socket_def get_partner_def)

lemma pairing_inv_safe_close [simp]: "pairing_inv (safe_close k s) = pairing_inv s"
  by (simp add: pairing_inv_def get_socket_def get_partner_def safe_close_def)

lemma pairing_inv_values:
  assumes "pairing_inv s" "get_partner s a = Some b"
  shows "b \<noteq> []" and "get_partner s b = Some a"
    and "get_socket s b \<noteq> None" and "get_socket s a \<noteq> None"
proof -
  show ba: "get_partner s b = Some a" and "get_socket s a \<noteq> None"
    using assms unfolding pairing_inv_def by blast+
  show nb: "get_socket s b \<noteq> None"
    using assms(1) ba unfolding pairing_inv_def by blast
  have "get_socket s [] = None"
    using assms(1) by (simp add: pairing_inv_def)
  then show "b \<noteq> []"
    using nb by auto
qed


lemma pairing_invI:
  assumes "get_socket s [] = None"
    and "\<And>a b. get_partner s a = Some b \<Longrightarrow> get_partner s b = Some a \<and> get_socket s a \<noteq> None"
  shows "pairing_inv s"
  unfolding pairing_inv_def using assms by blast

lemma pairing_inv_nameless: "pairing_inv s \<Longrightarrow> get_socket s [] = None"
  unfolding pairing_inv_def by blast

lemma pairing_inv_register:
  assumes "pairing_inv s" "name \<noteq> []"
  shows "pairing_inv (s\<lparr>clients := AList.update name conn (clients s)\<rparr>)"
proof (rule pairing_invI)
  show "get_socket (s\<lparr>clients := AList.update name conn (clients s)\<rparr>) [] = None"
    using pairing_inv_nameless [OF assms(1)] assms(2)
    by (simp add: get_socket_def update_conv')
next
  fix a b
  assume "get_partner (s\<lparr>clients := AList.update name conn (clients s)\<rparr>) a = Some b"
  then have ab: "get_partner s a = Some b" by (simp add: get_partner_def)
  show "get_partner (s\<lparr>clients := AList.update name conn (clients s)\<rparr>) b = Some a
        \<and> get_socket (s\<lparr>clients := AList.update name conn (clients s)\<rparr>) a \<noteq> None"
    using pairing_inv_values(2,4) [OF assms(1) ab]
    by (simp add: get_partner_def get_socket_def update_conv')
qed


lemma pairing_inv_unpair:
  assumes "pairing_inv s" "get_partner s u = Some p"
  shows "pairing_inv (unpair_locked u p s)"
    and "get_partner (unpair_locked u p s) u = None"
    and "get_partner (unpair_locked u p s) p = None"
proof -
  have ptr: "map_of (pairs s) p = Some u"
    using pairing_inv_values(2) [OF assms] by (simp add: get_partner_def)
  have mu: "map_of (pairs s) u = Some p"
    using assms(2) by (simp add: get_partner_def)
  have m: "map_of (pairs (unpair_locked u p s)) = (map_of (pairs s))(p := None, u := None)"
    by (simp add: unpair_locked_def Let_def ptr delete_conv')
  show "get_partner (unpair_locked u p s) u = None" "get_partner (unpair_locked u p s) p = None"
    by (simp_all add: get_partner_def m)
  show "pairing_inv (unpair_locked u p s)"
  proof (rule pairing_invI)
    show "get_socket (unpair_locked u p s) [] = None"
      using pairing_inv_nameless [OF assms(1)] by (simp add: get_socket_def)
  next
    fix a b
    assume ab: "get_partner (unpair_locked u p s) a = Some b"
    have a: "a \<noteq> p" "a \<noteq> u" "get_partner s a = Some b"
      using ab by (auto simp add: get_partner_def m split: if_splits)
    have ba: "get_partner s b = Some a" and ra: "get_socket s a \<noteq> None"
      using pairing_inv_values(2,4) [OF assms(1) a(3)] by simp_all
    have "b \<noteq> p" "b \<noteq> u"
      using ba a(1,2) ptr mu by (auto simp add: get_partner_def)
    then show "get_partner (unpair_locked u p s) b = Some a
               \<and> get_socket (unpair_locked u p s) a \<noteq> None"
      using ba ra by (simp add: get_partner_def get_socket_def m)
  qed
qed


lemma cleanup_user_clients:
  "map_of (clients (cleanup_user u s)) = (map_of (clients s))(u := None)"
  by (simp add: cleanup_user_def Let_def delete_conv' safe_close_def
      split: option.splits prod.splits if_splits)

lemma cleanup_user_pairs:
  assumes "pairing_inv s"
  shows "map_of (pairs (cleanup_user u s)) x =
           (if x = u \<or> map_of (pairs s) u = Some x then None else map_of (pairs s) x)"
proof (cases "map_of (pairs s) u")
  case None
  then show ?thesis
    by (simp add: cleanup_user_def Let_def delete_conv' safe_close_def split: option.splits)
next
  case (Some p)
  have "map_of (pairs s) p = Some u"
    using pairing_inv_values(2) [OF assms, of u p] Some by (simp add: get_partner_def)
  then show ?thesis
    using Some
    by (simp add: cleanup_user_def Let_def delete_conv' safe_close_def split: option.splits)
qed

lemma pairing_inv_cleanup:
  assumes "pairing_inv s"
  shows "pairing_inv (cleanup_user u s)"
proof (rule pairing_invI)
  show "get_socket (cleanup_user u s) [] = None"
    using pairing_inv_nameless [OF assms] by (simp add: get_socket_def cleanup_user_clients)
next
  fix a b
  assume "get_partner (cleanup_user u s) a = Some b"
  then have a: "a \<noteq> u" "map_of (pairs s) u \<noteq> Some a" "get_partner s a = Some b"
    by (auto simp add: get_partner_def cleanup_user_pairs [OF assms] split: if_splits)
  have ba: "get_partner s b = Some a" and ra: "get_socket s a \<noteq> None"
    using pairing_inv_values(2,4) [OF assms a(3)] by simp_all
  have "b \<noteq> u"
    using ba a(2) by (auto simp add: get_partner_def)
  moreover have "map_of (pairs s) u \<noteq> Some b"
  proof
    assume "map_of (pairs s) u = Some b"
    then have "get_partner s b = Some u"
      using pairing_inv_values(2) [OF assms, of u b] by (simp add: get_partner_def)
    then show False using ba a(1) by simp
  qed
  ultimately show "get_partner (cleanup_user u s) b = Some a
                   \<and> get_socket (cleanup_user u s) a \<noteq> None"
    using ba ra a(1)
    by (simp add: get_partner_def get_socket_def cleanup_user_pairs [OF assms] cleanup_user_clients)
qed


lemma pairing_inv_close_previous:
  assumes "pairing_inv s"
  shows "pairing_inv (close_previous u c s)"
    and "get_partner (close_previous u c s) u = None"
    and "clients (close_previous u c s) = clients s"
proof -
  show "clients (close_previous u c s) = clients s"
    by (simp add: close_previous_def Let_def split: option.splits)
  show "pairing_inv (close_previous u c s)" "get_partner (close_previous u c s) u = None"
  proof (atomize (full), cases "get_partner s u")
    case None
    then show "pairing_inv (close_previous u c s) \<and> get_partner (close_previous u c s) u = None"
      using assms by (simp add: close_previous_def)
  next
    case (Some old)
    have "old \<noteq> []"
      using pairing_inv_values(1) [OF assms Some] .
    then show "pairing_inv (close_previous u c s) \<and> get_partner (close_previous u c s) u = None"
      using Some pairing_inv_unpair(1,2) [OF assms Some]
      by (simp add: close_previous_def Let_def get_partner_def split: option.splits)
  qed
qed

lemma pairing_inv_set_pair:
  assumes "pairing_inv s" and "get_partner s u = None" and "get_partner s t = None"
    and "get_socket s u \<noteq> None" and "get_socket s t \<noteq> None"
  shows "pairing_inv (set_pair u t s)"
proof (rule pairing_invI)
  show "get_socket (set_pair u t s) [] = None"
    using pairing_inv_nameless [OF assms(1)] by (simp add: get_socket_def set_pair_def)
next
  fix a b
  assume ab: "get_partner (set_pair u t s) a = Some b"
  have m: "map_of (pairs (set_pair u t s)) = (map_of (pairs s))(u \<mapsto> t, t \<mapsto> u)"
    by (simp add: set_pair_def update_conv')
  have c: "clients (set_pair u t s) = clients s"
    by (simp add: set_pair_def)
  show "get_partner (set_pair u t s) b = Some a \<and> get_socket (set_pair u t s) a \<noteq> None"
  proof (cases "a = t \<or> a = u")
    case True
    then show ?thesis
      using ab assms(4,5) by (auto simp add: get_partner_def get_socket_def m c split: if_splits)
  next
    case False
    then have old: "get_partner s a = Some b"
      using ab by (simp add: get_partner_def m)
    have ba: "get_partner s b = Some a" and ra: "get_socket s a \<noteq> None"
      using pairing_inv_values(2,4) [OF assms(1) old] by simp_all
    have "b \<noteq> u" "b \<noteq> t"
      using ba assms(2,3) by auto
    then show ?thesis
      using ba ra by (simp add: get_partner_def get_socket_def m c)
  qed
qed


lemma pairing_inv_chat_commit:
  assumes "pairing_inv s" and "get_partner s u = None" and "get_partner s t = None"
    and "get_socket s u \<noteq> None" and "get_socket s t \<noteq> None"
  shows "pairing_inv (chat_commit u c t k s)"
  using pairing_inv_set_pair [OF assms] by (simp add: chat_commit_def Let_def)

lemma pairing_inv_chat_prepare:
  assumes "pairing_inv s" and "chat_prepare u c t s = (ok, s1)"
  shows "pairing_inv s1" and "clients s1 = clients s"
    and "ok \<Longrightarrow> get_partner s1 u = None \<and> get_partner s1 t = None"
proof -
  note cp = pairing_inv_close_previous [OF assms(1), of u c]
  show "pairing_inv s1"
    using assms(2) cp(1)
    by (auto simp add: chat_prepare_def Let_def split: option.splits if_splits)
  show "clients s1 = clients s"
    using assms(2) cp(3)
    by (auto simp add: chat_prepare_def Let_def split: option.splits if_splits)
  show "get_partner s1 u = None \<and> get_partner s1 t = None" if ok
  proof -
    have s1: "s1 = close_previous u c s"
      using assms(2) that
      by (auto simp add: chat_prepare_def Let_def split: option.splits if_splits)
    have "get_partner s1 t = None"
    proof (cases "get_partner s1 t")
      case (Some tp)
      have "tp \<noteq> []" and sym: "get_partner s1 tp = Some t"
        using pairing_inv_values(1,2) [OF cp(1), of t tp] Some by (simp_all add: s1)
      then have "tp = u"
        using assms(2) that Some
        by (auto simp add: chat_prepare_def Let_def s1 split: option.splits if_splits)
      then show ?thesis
        using sym cp(2) by (simp add: s1)
    qed simp
    then show ?thesis
      using cp(2) by (simp add: s1)
  qed
qed

lemma pairing_inv_chat_cmd:
  assumes "pairing_inv s" and "get_socket s u \<noteq> None"
  shows "pairing_inv (chat_cmd u c parts s)"
proof -
  have tail: "pairing_inv (case chat_prepare u c t s of
                             (False, s1) \<Rightarrow> s1
                           | (True, s1) \<Rightarrow> chat_commit u c t k s1)"
    if "get_socket s t = Some k" for t k
  proof (cases "chat_prepare u c t s")
    case (Pair ok s1)
    note pr = pairing_inv_chat_prepare [OF assms(1) Pair]
    show ?thesis
    proof (cases ok)
      case True
      have "pairing_inv (chat_commit u c t k s1)"
        using pr(3) [OF True] assms(2) that
        by (intro pairing_inv_chat_commit [OF pr(1)]) (simp_all add: get_socket_def pr(2))
      then show ?thesis by (simp add: Pair True)
    next
      case False
      then show ?thesis using pr(1) by (simp add: Pair)
    qed
  qed
  show ?thesis
    using assms(1) tail by (simp add: chat_cmd_def Let_def split: option.splits)
qed


lemma pairing_inv_leave_cmd:
  assumes "pairing_inv s"
  shows "pairing_inv (leave_cmd u c s)"
proof (cases "get_partner s u")
  case None
  then show ?thesis using assms by (simp add: leave_cmd_def)
next
  case (Some p)
  have "p \<noteq> []"
    using pairing_inv_values(1) [OF assms Some] .
  then show ?thesis
    using Some pairing_inv_unpair(1) [OF assms Some]
    by (simp add: leave_cmd_def Let_def split: option.splits)
qed

lemma pairing_inv_route_message:
  assumes "pairing_inv s"
  shows "pairing_inv (route_message u c msg s)"
proof (cases "get_partner s u")
  case None
  then show ?thesis using assms by (simp add: route_message_def)
next
  case (Some p)
  have "get_socket s p \<noteq> None"
    using pairing_inv_values(3) [OF assms Some] .
  then show ?thesis
    using Some assms by (auto simp add: route_message_def)
qed

lemma pairing_inv_handle_line:
  assumes "pairing_inv s" and "get_socket s u \<noteq> None"
  shows "pairing_inv (snd (handle_line u c l s))"
  using assms
  by (simp add: handle_line_def Let_def users_cmd_def pairing_inv_chat_cmd
      pairing_inv_leave_cmd pairing_inv_route_message split: list.splits)

lemma pairing_inv_greet [simp]: "pairing_inv (greet u c s) = pairing_inv s"
  by (simp add: greet_def Let_def)

lemma serial_pairing_inv: "serial s \<Longrightarrow> pairing_inv s"
proof (induction rule: serial.induct)
  case start
  show ?case by (simp add: pairing_inv_def get_socket_def get_partner_def)
next
  case (register s username conn)
  then show ?case by (simp add: pairing_inv_register)
next
  case (taken s username conn)
  then show ?case by (simp add: pairing_inv_cleanup)
next
  case (line s username conn l)
  then show ?case by (simp add: pairing_inv_handle_line)
next
  case (teardown s username)
  then show ?case by (simp add: pairing_inv_cleanup)
qed

lemma serial_symmetric:
  "serial s \<Longrightarrow> get_partner s a = Some b \<Longrightarrow> get_partner s b = Some a"
  using pairing_inv_values(2) [OF serial_pairing_inv] by blast

end
